theory Spec2Isabelle
  imports
    Main
    "HOL-Library.Word"
    "HOL-Library.Multiset"
    "HOL-Library.Sublist"
    "HOL-Library.Char_ord"
    "HOL-Library.List_Lexorder"
begin

section \<open>Data model of the live functions view\<close>

text \<open>
  The class \<open>LiveFunctionsDataView\<close>, whose member functions src/OrbitGl/CaptureListener.h
  holds, keeps a vector of tracked functions (\<open>functions_\<close>) and a vector of indices into
  it (\<open>indices_\<close>), the visible rows.
  Timestamps, addresses and statistics are \<open>uint64_t\<close>, modelled as \<open>64 word\<close>.
  A \<open>CHECK\<close> that fails aborts the process; reading a \<open>std::vector\<close> out of range is
  undefined behaviour. Both are outcomes of the model.
\<close>

type_synonym u64 = "64 word"

datatype error = CheckFailed | OutOfRange

record TimerInfo =
  function_address :: u64
  start :: u64
  end_t :: u64

record TextBox =
  GetTimerInfo :: TimerInfo

text \<open>
  A \<open>TimerChain\<close> is a sequence of blocks, a block a sequence of text boxes. A
  \<open>TextBox*\<close> into the chains is the position of the box (chain, block, slot) together
  with the box found there; the chains are not modified while they are scanned.
\<close>

type_synonym TimerBlock = "TextBox list"
type_synonym TimerChain = "TimerBlock list"
type_synonym box_ptr = "(nat \<times> nat \<times> nat) \<times> TextBox"

record FunctionInfo =
  name :: string
  loaded_module_path :: string
  address :: u64

record FunctionStats =
  count' :: u64
  total_time_ns :: u64
  average_time_ns :: u64
  min_ns :: u64
  max_ns :: u64

datatype SortingOrder = kAscending | kDescending

text \<open>
  What the view reads from and writes to the application object \<open>app_\<close> and its capture
  data. None of it is defined in the view's source file, so each member function the view
  calls is a field: the view's behaviour is stated for every application.
  \<open>selected_functions\<close> is the hash map of the capture data as the sequence of its
  entries in iteration order; \<open>visible_functions\<close> is what \<open>SetVisibleFunctions\<close> stored.
  The accessor \<open>GetCaptureData\<close> is outside the source file as well: the fields of the
  capture data are read directly, and what the accessor does without capture data is
  not part of the model.
\<close>

record App =
  HasCaptureData :: bool
  IsCapturing :: bool
  IsCaptureConnected :: bool
  IsFunctionSelected :: "FunctionInfo \<Rightarrow> bool"
  selected_functions :: "(u64 \<times> FunctionInfo) list"
  GetFunctionStatsOrDefault :: "FunctionInfo \<Rightarrow> FunctionStats"
  GetAbsoluteAddress :: "FunctionInfo \<Rightarrow> u64"
  process_id :: int
  visible_functions :: "u64 set"

text \<open>
  The free helper functions the view calls (\<open>function_utils\<close>, the formatting
  functions), likewise defined outside the view's source file.
\<close>

record Utils =
  GetDisplayName :: "FunctionInfo \<Rightarrow> string"
  GetLoadedModuleName :: "FunctionInfo \<Rightarrow> string"
  IsOrbitFunc :: "FunctionInfo \<Rightarrow> bool"
  BuildSelectedColumnsString :: "App \<Rightarrow> FunctionInfo \<Rightarrow> string"
  GetPrettyTime :: "u64 \<Rightarrow> string"
  StrFormat_lu :: "u64 \<Rightarrow> string"
  StrFormat_0x_llx :: "u64 \<Rightarrow> string"

text \<open>The global time graph \<open>GCurrentTimeGraph\<close>: its timer chains and its two searches.\<close>

record TimeGraph =
  GetAllThreadTrackTimerChains :: "TimerChain option list"
  FindNextFunctionCall :: "u64 \<Rightarrow> u64 \<Rightarrow> box_ptr option"
  FindPreviousFunctionCall :: "u64 \<Rightarrow> u64 \<Rightarrow> box_ptr option"

text \<open>
  The members of the view. A member \<open>x_\<close> of the class is the field \<open>x_m\<close>
  (a name cannot end with an underscore here).
\<close>

record LiveFunctionsDataView =
  app_m :: App
  functions_m :: "FunctionInfo list"
  indices_m :: "nat list"
  filter_m :: string
  sorting_column_m :: int
  sorting_orders_m :: "SortingOrder list"
  update_period_ms_m :: nat

text \<open>
  The column enumerators. Their declaration is in the header of the class, which is not
  under src/; they are numbered in the order in which \<open>GetColumns\<close> fills the table, and
  only their being distinct matters below.
\<close>

definition kColumnSelected :: int where "kColumnSelected = 0"
definition kColumnName :: int where "kColumnName = 1"
definition kColumnCount :: int where "kColumnCount = 2"
definition kColumnTimeTotal :: int where "kColumnTimeTotal = 3"
definition kColumnTimeAvg :: int where "kColumnTimeAvg = 4"
definition kColumnTimeMin :: int where "kColumnTimeMin = 5"
definition kColumnTimeMax :: int where "kColumnTimeMax = 6"
definition kColumnModule :: int where "kColumnModule = 7"
definition kColumnAddress :: int where "kColumnAddress = 8"
definition kNumColumns :: int where "kNumColumns = 9"


definition to_unsigned :: "int \<Rightarrow> nat" where
  "to_unsigned i = nat (i mod 2 ^ 32)"

section \<open>GetSelectedFunction\<close>

text \<open>
  \<open>CHECK(row < functions_.size()); return &(functions_[indices_[row]]);\<close>
  The two subscripts are unchecked vector reads.
\<close>

definition GetSelectedFunction :: "LiveFunctionsDataView \<Rightarrow> nat \<Rightarrow> error + FunctionInfo" where
  "GetSelectedFunction s row =
     (if \<not> row < length (functions_m s) then Inl CheckFailed
      else if \<not> row < length (indices_m s) then Inl OutOfRange
      else if \<not> indices_m s ! row < length (functions_m s) then Inl OutOfRange
      else Inr (functions_m s ! (indices_m s ! row)))"

text \<open>
  Modelled from the spec: \<open>GetNumElements\<close> of the base class DataView is not under src/;
  it is the current visible count, the number of entries of \<open>indices_\<close>.
\<close>

definition GetNumElements :: "LiveFunctionsDataView \<Rightarrow> nat" where
  "GetNumElements s = length (indices_m s)"

section \<open>GetMinMax\<close>

definition elapsed :: "TextBox \<Rightarrow> u64" where
  "elapsed box = end_t (GetTimerInfo box) - start (GetTimerInfo box)"

text \<open>The body of the innermost loop of \<open>GetMinMax\<close>, for the box behind \<open>p\<close>.\<close>

definition visit_box :: "u64 \<Rightarrow> box_ptr \<Rightarrow> box_ptr option \<times> box_ptr option
    \<Rightarrow> box_ptr option \<times> box_ptr option" where
  "visit_box fa p mm =
     (let box = snd p; min_box = fst mm; max_box = snd mm in
      if function_address (GetTimerInfo box) = fa then
        let elapsed_nanos = end_t (GetTimerInfo box) - start (GetTimerInfo box);
            min_box' = (case min_box of
                          None \<Rightarrow> Some p
                        | Some m \<Rightarrow> if elapsed_nanos < elapsed (snd m) then Some p else min_box);
            max_box' = (case max_box of
                          None \<Rightarrow> Some p
                        | Some m \<Rightarrow> if elapsed_nanos > elapsed (snd m) then Some p else max_box)
        in (min_box', max_box')
      else mm)"

text \<open>The loop over the slots \<open>0 .. block.size() - 1\<close> of one block.\<close>

definition block_ptrs :: "nat \<Rightarrow> nat \<Rightarrow> TimerBlock \<Rightarrow> box_ptr list" where
  "block_ptrs c b block = map (\<lambda>i. ((c, b, i), block ! i)) [0 ..< length block]"

definition scan_block :: "u64 \<Rightarrow> nat \<Rightarrow> nat \<Rightarrow> TimerBlock
    \<Rightarrow> box_ptr option \<times> box_ptr option \<Rightarrow> box_ptr option \<times> box_ptr option" where
  "scan_block fa c b block mm = fold (visit_box fa) (block_ptrs c b block) mm"

text \<open>The loop over the blocks of one chain.\<close>

definition scan_chain :: "u64 \<Rightarrow> nat \<Rightarrow> TimerChain
    \<Rightarrow> box_ptr option \<times> box_ptr option \<Rightarrow> box_ptr option \<times> box_ptr option" where
  "scan_chain fa c chain mm =
     fold (\<lambda>bb. scan_block fa c (fst bb) (snd bb)) (enumerate 0 chain) mm"

text \<open>The loop over the chains; a null \<open>shared_ptr\<close> is skipped.\<close>

definition scan_chains :: "u64 \<Rightarrow> TimerChain option list
    \<Rightarrow> box_ptr option \<times> box_ptr option" where
  "scan_chains fa chs =
     fold (\<lambda>cc. case snd cc of None \<Rightarrow> id | Some chain \<Rightarrow> scan_chain fa (fst cc) chain)
          (enumerate 0 chs) (None, None)"

definition GetMinMax :: "TimeGraph \<Rightarrow> LiveFunctionsDataView \<Rightarrow> FunctionInfo
    \<Rightarrow> box_ptr option \<times> box_ptr option" where
  "GetMinMax tg s function =
     (let function_address = GetAbsoluteAddress (app_m s) function;
          chs = GetAllThreadTrackTimerChains tg
      in scan_chains function_address chs)"

text \<open>The boxes in the order in which the three loops visit them.\<close>

definition chain_ptrs :: "nat \<Rightarrow> TimerChain \<Rightarrow> box_ptr list" where
  "chain_ptrs c chain = concat (map (\<lambda>bb. block_ptrs c (fst bb) (snd bb)) (enumerate 0 chain))"

definition all_ptrs :: "TimerChain option list \<Rightarrow> box_ptr list" where
  "all_ptrs chs =
     concat (map (\<lambda>cc. case snd cc of None \<Rightarrow> [] | Some chain \<Rightarrow> chain_ptrs (fst cc) chain)
                 (enumerate 0 chs))"

definition matches :: "u64 \<Rightarrow> box_ptr \<Rightarrow> bool" where
  "matches fa p = (function_address (GetTimerInfo (snd p)) = fa)"

section \<open>DoFilter\<close>

text \<open>
  Modelled from the spec: \<open>ToLower\<close> (CoreUtils.h) is not under src/; the spec says the
  filter and the names are lower-cased. It maps \<open>tolower\<close> of the C locale over the bytes
  of the string: the letters \<open>A\<close> to \<open>Z\<close> move to \<open>a\<close> to \<open>z\<close>, every other byte stays.
\<close>

definition tolower :: "char \<Rightarrow> char" where
  "tolower c = (if 65 \<le> (of_char c :: nat) \<and> (of_char c :: nat) \<le> 90
                then char_of (of_char c + (32 :: nat)) else c)"

definition ToLower :: "string \<Rightarrow> string" where
  "ToLower str = map tolower str"

text \<open>
  \<open>absl::StrSplit(text, ' ')\<close>: the pieces between the occurrences of the delimiter
  character, empty pieces included; the empty text gives one empty piece.
\<close>

fun StrSplit :: "string \<Rightarrow> char \<Rightarrow> string list" where
  "StrSplit [] d = [[]]"
| "StrSplit (c # cs) d =
     (if c = d then [] # StrSplit cs d
      else (case StrSplit cs d of [] \<Rightarrow> [[c]] | t # ts \<Rightarrow> (c # t) # ts))"

text \<open>
  \<open>std::string::find\<close>: the first position at which the token starts in the text, or
  \<open>npos\<close> (\<open>None\<close>). The empty token is found at position 0 of every text.
\<close>

fun find_str :: "string \<Rightarrow> string \<Rightarrow> nat option" where
  "find_str [] tok = (if tok = [] then Some 0 else None)"
| "find_str (c # cs) tok =
     (if prefix tok (c # cs) then Some 0 else map_option Suc (find_str cs tok))"

text \<open>The loop over the tokens, left at the first token that is not found.\<close>

fun token_loop :: "string \<Rightarrow> string list \<Rightarrow> bool" where
  "token_loop nm [] = True"
| "token_loop nm (filter_token # tokens) =
     (if find_str nm filter_token = None then False else token_loop nm tokens)"

text \<open>The loop over \<open>i = 0 .. functions_.size() - 1\<close> with its \<open>push_back\<close>.\<close>

definition filter_step :: "Utils \<Rightarrow> FunctionInfo list \<Rightarrow> string list \<Rightarrow> nat \<Rightarrow> nat list \<Rightarrow> nat list" where
  "filter_step h functions tokens i indices =
     (let function = functions ! i;
          nm = ToLower (GetDisplayName h function);
          match = token_loop nm tokens
      in if match then indices @ [i] else indices)"

definition filter_loop :: "Utils \<Rightarrow> FunctionInfo list \<Rightarrow> string list \<Rightarrow> nat list" where
  "filter_loop h functions tokens =
     fold (filter_step h functions tokens) [0 ..< length functions] []"

text \<open>The loop that collects the absolute addresses of the visible functions.\<close>

fun visible_loop :: "LiveFunctionsDataView \<Rightarrow> nat list \<Rightarrow> u64 set \<Rightarrow> error + u64 set" where
  "visible_loop s [] visible = Inr visible"
| "visible_loop s (i # rows) visible =
     (case GetSelectedFunction s i of
        Inl e \<Rightarrow> Inl e
      | Inr func \<Rightarrow> visible_loop s rows (insert (GetAbsoluteAddress (app_m s) func) visible))"

definition DoFilter :: "Utils \<Rightarrow> LiveFunctionsDataView \<Rightarrow> error + LiveFunctionsDataView" where
  "DoFilter h s =
     (if \<not> HasCaptureData (app_m s) then
        (if length (functions_m s) = 0 then Inr s else Inl CheckFailed)
      else
        let tokens = StrSplit (ToLower (filter_m s)) (CHR '' '');
            indices = filter_loop h (functions_m s) tokens;
            s1 = s\<lparr>indices_m := indices\<rparr>
        in case visible_loop s1 [0 ..< length (indices_m s1)] {} of
             Inl e \<Rightarrow> Inl e
           | Inr visible \<Rightarrow> Inr (s1\<lparr>app_m := (app_m s1)\<lparr>visible_functions := visible\<rparr>\<rparr>))"

text \<open>
  The filter as the specification words it: the tokens are the maximal runs of
  non-whitespace characters of the filter text, and a name is kept when every token,
  lower-cased, is a substring of the lower-cased name.
\<close>

definition is_whitespace :: "char \<Rightarrow> bool" where
  "is_whitespace c \<longleftrightarrow> (of_char c :: nat) \<in> {9, 10, 11, 12, 13, 32}"

fun spec_split :: "string \<Rightarrow> string \<Rightarrow> string list" where
  "spec_split cur [] = (if cur = [] then [] else [cur])"
| "spec_split cur (c # cs) =
     (if is_whitespace c then (if cur = [] then spec_split [] cs else cur # spec_split [] cs)
      else spec_split (cur @ [c]) cs)"

definition spec_tokens :: "string \<Rightarrow> string list" where
  "spec_tokens flt = spec_split [] flt"

definition spec_keeps :: "string \<Rightarrow> string \<Rightarrow> bool" where
  "spec_keeps flt nm \<longleftrightarrow> list_all (\<lambda>tok. sublist (ToLower tok) (ToLower nm)) (spec_tokens flt)"

section \<open>DoSort\<close>

text \<open>
  Modelled from the spec: \<open>orbit_core::Compare\<close> (CoreUtils.h) is not under src/. It is
  the comparator of a column: \<open>a < b\<close> when ascending, and with the direction flipped
  \<open>a > b\<close>.
\<close>

definition Compare :: "'a::linorder \<Rightarrow> 'a \<Rightarrow> bool \<Rightarrow> bool" where
  "Compare a b asc = (if asc then a < b else a > b)"

text \<open>
  \<open>std::stable_sort\<close> as a merge sort: the halves are sorted and merged, and the merge
  takes from the second half only an element that the comparator puts strictly before
  the next element of the first half.
\<close>

fun merge_by :: "('a \<Rightarrow> 'a \<Rightarrow> bool) \<Rightarrow> 'a list \<Rightarrow> 'a list \<Rightarrow> 'a list" where
  "merge_by lt [] ys = ys"
| "merge_by lt (x # xs) [] = x # xs"
| "merge_by lt (x # xs) (y # ys) =
     (if lt y x then y # merge_by lt (x # xs) ys else x # merge_by lt xs (y # ys))"

fun stable_sort :: "('a \<Rightarrow> 'a \<Rightarrow> bool) \<Rightarrow> 'a list \<Rightarrow> 'a list" where
  "stable_sort lt xs =
     (if length xs \<le> 1 then xs
      else merge_by lt (stable_sort lt (take (length xs div 2) xs))
                       (stable_sort lt (drop (length xs div 2) xs)))"

declare stable_sort.simps [simp del]

text \<open>
  The comparator that the \<open>switch\<close> over \<open>sorting_column_\<close> selects; \<open>None\<close> is the null
  \<open>std::function\<close> of the default case.
\<close>

definition sorter :: "Utils \<Rightarrow> LiveFunctionsDataView \<Rightarrow> bool \<Rightarrow> (nat \<Rightarrow> nat \<Rightarrow> bool) option" where
  "sorter h s ascending =
     (let functions = functions_m s; app = app_m s; col = sorting_column_m s in
      if col = kColumnSelected then
        Some (\<lambda>a b. Compare (IsFunctionSelected app (functions ! a))
                             (IsFunctionSelected app (functions ! b)) ascending)
      else if col = kColumnName then
        Some (\<lambda>a b. Compare (GetDisplayName h (functions ! a))
                             (GetDisplayName h (functions ! b)) ascending)
      else if col = kColumnCount then
        Some (\<lambda>a b. Compare (count' (GetFunctionStatsOrDefault app (functions ! a)))
                             (count' (GetFunctionStatsOrDefault app (functions ! b))) ascending)
      else if col = kColumnTimeTotal then
        Some (\<lambda>a b. Compare (total_time_ns (GetFunctionStatsOrDefault app (functions ! a)))
                             (total_time_ns (GetFunctionStatsOrDefault app (functions ! b))) ascending)
      else if col = kColumnTimeAvg then
        Some (\<lambda>a b. Compare (average_time_ns (GetFunctionStatsOrDefault app (functions ! a)))
                             (average_time_ns (GetFunctionStatsOrDefault app (functions ! b))) ascending)
      else if col = kColumnTimeMin then
        Some (\<lambda>a b. Compare (min_ns (GetFunctionStatsOrDefault app (functions ! a)))
                             (min_ns (GetFunctionStatsOrDefault app (functions ! b))) ascending)
      else if col = kColumnTimeMax then
        Some (\<lambda>a b. Compare (max_ns (GetFunctionStatsOrDefault app (functions ! a)))
                             (max_ns (GetFunctionStatsOrDefault app (functions ! b))) ascending)
      else if col = kColumnModule then
        Some (\<lambda>a b. Compare (GetLoadedModuleName h (functions ! a))
                             (GetLoadedModuleName h (functions ! b)) ascending)
      else if col = kColumnAddress then
        Some (\<lambda>a b. Compare (address (functions ! a)) (address (functions ! b)) ascending)
      else None)"

text \<open>
  \<open>sorting_orders_[sorting_column_]\<close> is an unchecked vector read, and so is every
  \<open>functions[a]\<close> of a comparator; sorting two or more rows compares each of them.
\<close>

definition DoSort :: "Utils \<Rightarrow> LiveFunctionsDataView \<Rightarrow> error + LiveFunctionsDataView" where
  "DoSort h s =
     (if \<not> HasCaptureData (app_m s) then
        (if length (functions_m s) = 0 then Inr s else Inl CheckFailed)
      else if sorting_column_m s < 0 \<or> int (length (sorting_orders_m s)) \<le> sorting_column_m s then
        Inl OutOfRange
      else
        let ascending = (sorting_orders_m s ! nat (sorting_column_m s) = kAscending) in
        case sorter h s ascending of
          None \<Rightarrow> Inr s
        | Some cmp \<Rightarrow>
            if 2 \<le> length (indices_m s)
               \<and> \<not> list_all (\<lambda>i. i < length (functions_m s)) (indices_m s)
            then Inl OutOfRange
            else Inr (s\<lparr>indices_m := stable_sort cmp (indices_m s)\<rparr>))"

text \<open>
  Modelled from the spec: \<open>OnSort\<close> of the base class DataView is not under src/. By
  section 4.4 of the spec the requested column becomes the active sort column, a
  requested direction replaces the stored one of that column, without a request the
  stored direction stays, and the visible rows are sorted by \<open>DoSort\<close>.
\<close>

definition OnSort :: "Utils \<Rightarrow> LiveFunctionsDataView \<Rightarrow> int \<Rightarrow> SortingOrder option
    \<Rightarrow> error + LiveFunctionsDataView" where
  "OnSort h s column new_order =
     DoSort h (s\<lparr>sorting_column_m := column,
                 sorting_orders_m := (case new_order of
                                        None \<Rightarrow> sorting_orders_m s
                                      | Some order \<Rightarrow> (sorting_orders_m s)[nat column := order])\<rparr>)"

section \<open>OnTimer\<close>

definition OnTimer :: "Utils \<Rightarrow> LiveFunctionsDataView \<Rightarrow> error + LiveFunctionsDataView" where
  "OnTimer h s =
     (if IsCapturing (app_m s) then OnSort h s (sorting_column_m s) None else Inr s)"

section \<open>OnDataChanged and the constructor\<close>

text \<open>
  Modelled from the spec: \<open>OnDataChanged\<close> of the base class DataView is not under src/.
  By section 4.4 of the spec no filter and no sort is reapplied after the rebuild, so
  the call leaves the members of the view as they are.
\<close>

definition DataView_OnDataChanged :: "LiveFunctionsDataView \<Rightarrow> LiveFunctionsDataView" where
  "DataView_OnDataChanged s = s"

text \<open>
  One round of the loop over the entries of \<open>selected_functions\<close>; the loop variables are
  \<open>functions_\<close>, \<open>indices_\<close> and \<open>i\<close>. The write \<open>indices_[i] = i\<close> stays inside the vector,
  which has one slot for each entry of the map while \<open>i\<close> counts the entries kept so far.
\<close>

definition rebuild_step :: "Utils \<Rightarrow> u64 \<times> FunctionInfo
    \<Rightarrow> FunctionInfo list \<times> nat list \<times> nat \<Rightarrow> FunctionInfo list \<times> nat list \<times> nat" where
  "rebuild_step h pair st =
     (case st of (functions, indices, i) \<Rightarrow>
        if IsOrbitFunc h (snd pair) then st
        else (functions @ [snd pair], indices[i := i], Suc i))"

definition OnDataChanged :: "Utils \<Rightarrow> LiveFunctionsDataView \<Rightarrow> LiveFunctionsDataView" where
  "OnDataChanged h s =
     (let s1 = s\<lparr>functions_m := [], indices_m := []\<rparr> in
      if \<not> HasCaptureData (app_m s1) then DataView_OnDataChanged s1
      else
        let selected = selected_functions (app_m s1);
            functions_count = length selected;
            st = fold (rebuild_step h) selected ([], replicate functions_count 0, 0)
        in DataView_OnDataChanged (s1\<lparr>functions_m := fst st, indices_m := fst (snd st)\<rparr>))"

text \<open>
  The constructor, applied to the object as the constructor of the base class leaves it.
\<close>

definition LiveFunctionsDataView_ctor :: "Utils \<Rightarrow> LiveFunctionsDataView \<Rightarrow> LiveFunctionsDataView" where
  "LiveFunctionsDataView_ctor h base = OnDataChanged h (base\<lparr>update_period_ms_m := 300\<rparr>)"

section \<open>GetValue\<close>


section \<open>OnContextMenu\<close>

definition kMenuActionSelect :: string where "kMenuActionSelect = ''Hook''"
definition kMenuActionUnselect :: string where "kMenuActionUnselect = ''Unhook''"
definition kMenuActionJumpToFirst :: string where "kMenuActionJumpToFirst = ''Jump to first''"
definition kMenuActionJumpToLast :: string where "kMenuActionJumpToLast = ''Jump to last''"
definition kMenuActionJumpToMin :: string where "kMenuActionJumpToMin = ''Jump to min''"
definition kMenuActionJumpToMax :: string where "kMenuActionJumpToMax = ''Jump to max''"
definition kMenuActionDisassembly :: string where "kMenuActionDisassembly = ''Go to Disassembly''"
definition kMenuActionIterate :: string where "kMenuActionIterate = ''Add iterator(s)''"
definition kMenuActionEnableFrameTrack :: string where
  "kMenuActionEnableFrameTrack = ''Enable frame track(s)''"
definition kMenuActionDisableFrameTrack :: string where
  "kMenuActionDisableFrameTrack = ''Disable frame track(s)''"

text \<open>\<open>std::numeric_limits<uint64_t>::lowest()\<close> and \<open>max()\<close>.\<close>

definition uint64_lowest :: u64 where "uint64_lowest = 0"
definition uint64_max :: u64 where "uint64_max = 18446744073709551615"

text \<open>
  The handler returns nothing; what it does is the sequence of calls it makes on the
  application, the time graph, the controller and the base class, with their arguments.
\<close>

datatype call =
    SelectFunction FunctionInfo
  | DeselectFunction FunctionInfo
  | DisableFrameTrack FunctionInfo
  | RemoveFrameTrack FunctionInfo
  | EnableFrameTrack FunctionInfo
  | AddFrameTrack FunctionInfo
  | Disassemble int FunctionInfo
  | Call_FindNextFunctionCall u64 u64
  | Call_FindPreviousFunctionCall u64 u64
  | SelectAndZoom box_ptr
  | AddIterator FunctionInfo
  | DataView_OnContextMenu string int "int list"

fun for_each :: "('a \<Rightarrow> error + call list) \<Rightarrow> 'a list \<Rightarrow> error + call list" where
  "for_each body [] = Inr []"
| "for_each body (i # rest) =
     (case body i of
        Inl e \<Rightarrow> Inl e
      | Inr calls \<Rightarrow> (case for_each body rest of
                        Inl e \<Rightarrow> Inl e
                      | Inr calls' \<Rightarrow> Inr (calls @ calls')))"

definition zoom_if_found :: "box_ptr option \<Rightarrow> call list" where
  "zoom_if_found box = (case box of None \<Rightarrow> [] | Some b \<Rightarrow> [SelectAndZoom b])"

definition OnContextMenu :: "TimeGraph \<Rightarrow> LiveFunctionsDataView \<Rightarrow> string \<Rightarrow> int \<Rightarrow> int list
    \<Rightarrow> error + call list" where
  "OnContextMenu tg s action menu_index item_indices =
     (let app = app_m s in
      if action = kMenuActionSelect \<or> action = kMenuActionUnselect
         \<or> action = kMenuActionDisassembly then
        for_each (\<lambda>i. case GetSelectedFunction s (to_unsigned i) of
                    Inl e \<Rightarrow> Inl e
                  | Inr selected_function \<Rightarrow>
                      if action = kMenuActionSelect then Inr [SelectFunction selected_function]
                      else if action = kMenuActionUnselect then
                        Inr [DeselectFunction selected_function,
                             DisableFrameTrack selected_function,
                             RemoveFrameTrack selected_function]
                      else if action = kMenuActionDisassembly then
                        Inr [Disassemble (process_id app) selected_function]
                      else Inr [])
                 item_indices
      else if action = kMenuActionJumpToFirst then
        (if length item_indices \<noteq> 1 then Inl CheckFailed
         else case GetSelectedFunction s (to_unsigned (item_indices ! 0)) of
           Inl e \<Rightarrow> Inl e
         | Inr function \<Rightarrow>
             let function_address = GetAbsoluteAddress app function;
                 first_box = FindNextFunctionCall tg function_address uint64_lowest
             in Inr (Call_FindNextFunctionCall function_address uint64_lowest
                       # zoom_if_found first_box))
      else if action = kMenuActionJumpToLast then
        (if length item_indices \<noteq> 1 then Inl CheckFailed
         else case GetSelectedFunction s (to_unsigned (item_indices ! 0)) of
           Inl e \<Rightarrow> Inl e
         | Inr function \<Rightarrow>
             let function_address = GetAbsoluteAddress app function;
                 last_box = FindPreviousFunctionCall tg function_address uint64_max
             in Inr (Call_FindPreviousFunctionCall function_address uint64_max
                       # zoom_if_found last_box))
      else if action = kMenuActionJumpToMin then
        (if length item_indices \<noteq> 1 then Inl CheckFailed
         else case GetSelectedFunction s (to_unsigned (item_indices ! 0)) of
           Inl e \<Rightarrow> Inl e
         | Inr function \<Rightarrow> Inr (zoom_if_found (fst (GetMinMax tg s function))))
      else if action = kMenuActionJumpToMax then
        (if length item_indices \<noteq> 1 then Inl CheckFailed
         else case GetSelectedFunction s (to_unsigned (item_indices ! 0)) of
           Inl e \<Rightarrow> Inl e
         | Inr function \<Rightarrow> Inr (zoom_if_found (snd (GetMinMax tg s function))))
      else if action = kMenuActionIterate then
        for_each (\<lambda>i. case GetSelectedFunction s (to_unsigned i) of
                    Inl e \<Rightarrow> Inl e
                  | Inr selected_function \<Rightarrow>
                      let stats = GetFunctionStatsOrDefault app selected_function in
                      if count' stats > 0 then Inr [AddIterator selected_function] else Inr [])
                 item_indices
      else if action = kMenuActionEnableFrameTrack then
        for_each (\<lambda>i. case GetSelectedFunction s (to_unsigned i) of
                    Inl e \<Rightarrow> Inl e
                  | Inr function \<Rightarrow>
                      Inr ((if IsCaptureConnected app then [SelectFunction function] else [])
                           @ [EnableFrameTrack function, AddFrameTrack function]))
                 item_indices
      else if action = kMenuActionDisableFrameTrack then
        for_each (\<lambda>i. case GetSelectedFunction s (to_unsigned i) of
                    Inl e \<Rightarrow> Inl e
                  | Inr function \<Rightarrow>
                      Inr [DisableFrameTrack function, RemoveFrameTrack function])
                 item_indices
      else Inr [DataView_OnContextMenu action menu_index item_indices])"

section \<open>Example inputs\<close>

text \<open>
  A small application with three tracked functions. \<open>ex_orbit\<close> is one that the
  predicate \<open>IsOrbitFunc\<close> of the example excludes.
\<close>

definition ex_f :: FunctionInfo where
  "ex_f = \<lparr>name = ''Foo'', loaded_module_path = ''/lib/a.so'', address = 1\<rparr>"

definition ex_g :: FunctionInfo where
  "ex_g = \<lparr>name = ''ab'', loaded_module_path = ''/lib/b.so'', address = 2\<rparr>"

definition ex_orbit :: FunctionInfo where
  "ex_orbit = \<lparr>name = ''orbit_api'', loaded_module_path = ''/lib/orbit.so'', address = 3\<rparr>"

definition ex_stats :: "FunctionInfo \<Rightarrow> FunctionStats" where
  "ex_stats f =
     (if address f = 1
      then \<lparr>count' = 3, total_time_ns = 60, average_time_ns = 20, min_ns = 10, max_ns = 30\<rparr>
      else \<lparr>count' = 0, total_time_ns = 0, average_time_ns = 0, min_ns = 0, max_ns = 0\<rparr>)"

definition ex_app :: App where
  "ex_app = \<lparr>HasCaptureData = True, IsCapturing = True, IsCaptureConnected = True,
             IsFunctionSelected = (\<lambda>f. address f = 1),
             selected_functions = [(3, ex_orbit), (1, ex_f), (2, ex_g)],
             GetFunctionStatsOrDefault = ex_stats,
             GetAbsoluteAddress = address,
             process_id = 42,
             visible_functions = {}\<rparr>"

definition ex_utils :: Utils where
  "ex_utils = \<lparr>GetDisplayName = name, GetLoadedModuleName = loaded_module_path,
               IsOrbitFunc = (\<lambda>f. address f = 3),
               BuildSelectedColumnsString = (\<lambda>app f. if IsFunctionSelected app f then ''H'' else ''''),
               GetPrettyTime = (\<lambda>t. ''t''), StrFormat_lu = (\<lambda>n. ''n''),
               StrFormat_0x_llx = (\<lambda>a. ''0x'')\<rparr>"

definition ex_view :: LiveFunctionsDataView where
  "ex_view = \<lparr>app_m = ex_app, functions_m = [ex_f, ex_g], indices_m = [0, 1],
              filter_m = '''', sorting_column_m = kColumnCount,
              sorting_orders_m = [kDescending, kAscending, kDescending, kDescending, kDescending,
                                  kDescending, kDescending, kAscending, kAscending],
              update_period_ms_m = 300\<rparr>"

text \<open>
  The timers of the specification's example: \<open>(a,10,50)\<close>, \<open>(a,5,5)\<close> and \<open>(a,100,130)\<close>
  for the address \<open>a = 1\<close>, between timers of the address 2, on two threads.
\<close>

definition ex_box :: "u64 \<Rightarrow> u64 \<Rightarrow> u64 \<Rightarrow> TextBox" where
  "ex_box fa t0 t1 = \<lparr>GetTimerInfo = \<lparr>function_address = fa, start = t0, end_t = t1\<rparr>\<rparr>"

definition ex_chains :: "TimerChain option list" where
  "ex_chains = [Some [[ex_box 1 10 50, ex_box 2 1 2], [ex_box 1 5 5]],
                None,
                Some [[ex_box 2 7 300, ex_box 1 100 130]]]"

definition ex_tg :: TimeGraph where
  "ex_tg = \<lparr>GetAllThreadTrackTimerChains = ex_chains,
            FindNextFunctionCall = (\<lambda>a t. None),
            FindPreviousFunctionCall = (\<lambda>a t. Some ((2, 0, 1), ex_box 1 100 130))\<rparr>"

text \<open>A view of three functions, two of them never called, and a filter text with a tab.\<close>

definition ex_h :: FunctionInfo where
  "ex_h = \<lparr>name = ''abc'', loaded_module_path = ''/lib/b.so'', address = 4\<rparr>"

definition ex_view3 :: LiveFunctionsDataView where
  "ex_view3 = ex_view\<lparr>functions_m := [ex_g, ex_f, ex_h], indices_m := [0, 1, 2]\<rparr>"

definition ex_tab_filter :: string where
  "ex_tab_filter = [CHR ''a'', CHR 0x09, CHR ''b'']"

text \<open>
  A strict weak ordering, as \<open>std::stable_sort\<close> requires of its comparator, and the
  rows that such a comparator takes for equal.
\<close>

definition strict_weak :: "('a \<Rightarrow> 'a \<Rightarrow> bool) \<Rightarrow> bool" where
  "strict_weak lt \<longleftrightarrow>
     (\<forall>a. \<not> lt a a) \<and> (\<forall>a b c. lt a b \<and> lt b c \<longrightarrow> lt a c)
     \<and> (\<forall>a b c. \<not> lt a b \<and> \<not> lt b a \<and> \<not> lt b c \<and> \<not> lt c b \<longrightarrow> \<not> lt a c \<and> \<not> lt c a)"

definition compare_equal :: "('a \<Rightarrow> 'a \<Rightarrow> bool) \<Rightarrow> 'a \<Rightarrow> 'a \<Rightarrow> bool" where
  "compare_equal lt a b \<longleftrightarrow> \<not> lt a b \<and> \<not> lt b a"

section \<open>Properties of GetMinMax\<close>

text \<open>
  \<open>is_first_min fa ps p\<close>: among the boxes of \<open>ps\<close> with function address \<open>fa\<close>, the box
  behind \<open>p\<close> has the smallest elapsed time, and every such box visited before \<open>p\<close> has
  a strictly larger one. \<open>is_first_max\<close> is the same for the largest.
\<close>

definition is_first_min :: "u64 \<Rightarrow> box_ptr list \<Rightarrow> box_ptr \<Rightarrow> bool" where
  "is_first_min fa ps p \<longleftrightarrow>
     (\<exists>pre post. ps = pre @ p # post \<and> matches fa p
        \<and> (\<forall>q \<in> set pre. matches fa q \<longrightarrow> elapsed (snd p) < elapsed (snd q))
        \<and> (\<forall>q \<in> set post. matches fa q \<longrightarrow> elapsed (snd p) \<le> elapsed (snd q)))"

definition is_first_max :: "u64 \<Rightarrow> box_ptr list \<Rightarrow> box_ptr \<Rightarrow> bool" where
  "is_first_max fa ps p \<longleftrightarrow>
     (\<exists>pre post. ps = pre @ p # post \<and> matches fa p
        \<and> (\<forall>q \<in> set pre. matches fa q \<longrightarrow> elapsed (snd q) < elapsed (snd p))
        \<and> (\<forall>q \<in> set post. matches fa q \<longrightarrow> elapsed (snd q) \<le> elapsed (snd p)))"

lemma fold_concat_map: "fold f (concat (map g xs)) = fold (\<lambda>x. fold f (g x)) xs"
  by (induction xs) (simp_all add: fun_eq_iff)

lemma scan_block_flat: "scan_block fa c b block = fold (visit_box fa) (block_ptrs c b block)"
  by (simp add: fun_eq_iff scan_block_def)

lemma scan_chain_flat: "scan_chain fa c chain = fold (visit_box fa) (chain_ptrs c chain)"
  by (simp add: scan_chain_def chain_ptrs_def scan_block_flat fold_concat_map fun_eq_iff)

text \<open>The three nested loops are one pass over the boxes in visiting order.\<close>

lemma scan_chains_flat: "scan_chains fa chs = fold (visit_box fa) (all_ptrs chs) (None, None)"
proof -
  have "(\<lambda>cc. case snd cc of None \<Rightarrow> id | Some chain \<Rightarrow> scan_chain fa (fst cc) chain)
      = (\<lambda>cc. fold (visit_box fa)
                 (case snd cc of None \<Rightarrow> [] | Some chain \<Rightarrow> chain_ptrs (fst cc) chain))"
    by (auto simp: fun_eq_iff scan_chain_flat split: option.splits)
  then show ?thesis
    by (simp add: scan_chains_def all_ptrs_def fold_concat_map)
qed

lemma visit_box_nomatch: "\<not> matches fa p \<Longrightarrow> visit_box fa p mm = mm"
  by (simp add: visit_box_def matches_def Let_def)

lemma visit_box_match:
  "matches fa p \<Longrightarrow> visit_box fa p (mn, mx) =
     ((case mn of None \<Rightarrow> Some p
       | Some m \<Rightarrow> if elapsed (snd p) < elapsed (snd m) then Some p else mn),
      (case mx of None \<Rightarrow> Some p
       | Some m \<Rightarrow> if elapsed (snd m) < elapsed (snd p) then Some p else mx))"
  by (simp add: visit_box_def matches_def Let_def elapsed_def split: option.splits)

lemma is_first_min_snoc_keep:
  assumes "is_first_min fa ps m" "matches fa p \<longrightarrow> elapsed (snd m) \<le> elapsed (snd p)"
  shows "is_first_min fa (ps @ [p]) m"
proof -
  from assms(1) obtain pre post where h: "ps = pre @ m # post" "matches fa m"
    "\<forall>q \<in> set pre. matches fa q \<longrightarrow> elapsed (snd m) < elapsed (snd q)"
    "\<forall>q \<in> set post. matches fa q \<longrightarrow> elapsed (snd m) \<le> elapsed (snd q)"
    unfolding is_first_min_def by blast
  have "ps @ [p] = pre @ m # (post @ [p])" using h(1) by simp
  moreover have "\<forall>q \<in> set (post @ [p]). matches fa q \<longrightarrow> elapsed (snd m) \<le> elapsed (snd q)"
    using h(4) assms(2) by auto
  ultimately show ?thesis unfolding is_first_min_def using h(2,3) by blast
qed

lemma is_first_min_lower:
  assumes "is_first_min fa ps m" "q \<in> set ps" "matches fa q"
  shows "elapsed (snd m) \<le> elapsed (snd q)"
proof -
  from assms(1) obtain pre post where h: "ps = pre @ m # post" "matches fa m"
    "\<forall>q \<in> set pre. matches fa q \<longrightarrow> elapsed (snd m) < elapsed (snd q)"
    "\<forall>q \<in> set post. matches fa q \<longrightarrow> elapsed (snd m) \<le> elapsed (snd q)"
    unfolding is_first_min_def by blast
  from assms(2) h(1) have "q \<in> set pre \<or> q = m \<or> q \<in> set post" by auto
  then show ?thesis using h(3,4) assms(3) by (auto simp: less_imp_le)
qed

lemma is_first_min_snoc_new:
  assumes "matches fa p" "\<forall>q \<in> set ps. matches fa q \<longrightarrow> elapsed (snd p) < elapsed (snd q)"
  shows "is_first_min fa (ps @ [p]) p"
  unfolding is_first_min_def using assms by (intro exI[of _ ps] exI[of _ "[]"]) simp

lemma is_first_max_snoc_keep:
  assumes "is_first_max fa ps m" "matches fa p \<longrightarrow> elapsed (snd p) \<le> elapsed (snd m)"
  shows "is_first_max fa (ps @ [p]) m"
proof -
  from assms(1) obtain pre post where h: "ps = pre @ m # post" "matches fa m"
    "\<forall>q \<in> set pre. matches fa q \<longrightarrow> elapsed (snd q) < elapsed (snd m)"
    "\<forall>q \<in> set post. matches fa q \<longrightarrow> elapsed (snd q) \<le> elapsed (snd m)"
    unfolding is_first_max_def by blast
  have "ps @ [p] = pre @ m # (post @ [p])" using h(1) by simp
  moreover have "\<forall>q \<in> set (post @ [p]). matches fa q \<longrightarrow> elapsed (snd q) \<le> elapsed (snd m)"
    using h(4) assms(2) by auto
  ultimately show ?thesis unfolding is_first_max_def using h(2,3) by blast
qed

lemma is_first_max_upper:
  assumes "is_first_max fa ps m" "q \<in> set ps" "matches fa q"
  shows "elapsed (snd q) \<le> elapsed (snd m)"
proof -
  from assms(1) obtain pre post where h: "ps = pre @ m # post" "matches fa m"
    "\<forall>q \<in> set pre. matches fa q \<longrightarrow> elapsed (snd q) < elapsed (snd m)"
    "\<forall>q \<in> set post. matches fa q \<longrightarrow> elapsed (snd q) \<le> elapsed (snd m)"
    unfolding is_first_max_def by blast
  from assms(2) h(1) have "q \<in> set pre \<or> q = m \<or> q \<in> set post" by auto
  then show ?thesis using h(3,4) assms(3) by (auto simp: less_imp_le)
qed

lemma is_first_max_snoc_new:
  assumes "matches fa p" "\<forall>q \<in> set ps. matches fa q \<longrightarrow> elapsed (snd q) < elapsed (snd p)"
  shows "is_first_max fa (ps @ [p]) p"
  unfolding is_first_max_def using assms by (intro exI[of _ ps] exI[of _ "[]"]) simp

text \<open>The running minimum after a pass over \<open>ps\<close>, by induction on the boxes visited.\<close>

lemma fold_visit_min:
  "(case fst (fold (visit_box fa) ps (None, None)) of
      None \<Rightarrow> \<forall>q \<in> set ps. \<not> matches fa q
    | Some m \<Rightarrow> is_first_min fa ps m)"
proof (induction ps rule: rev_induct)
  case Nil
  show ?case by simp
next
  case (snoc p ps)
  obtain mn mx where f: "fold (visit_box fa) ps (None, None) = (mn, mx)"
    by (cases "fold (visit_box fa) ps (None, None)")
  show ?case
  proof (cases "matches fa p")
    case False
    then show ?thesis using snoc f
      by (auto simp: visit_box_nomatch split: option.splits intro: is_first_min_snoc_keep)
  next
    case True
    show ?thesis
    proof (cases mn)
      case None
      then show ?thesis using snoc f True
        by (auto simp: visit_box_match intro!: is_first_min_snoc_new)
    next
      case (Some m)
      then have m: "is_first_min fa ps m" using snoc f by simp
      show ?thesis
      proof (cases "elapsed (snd p) < elapsed (snd m)")
        case True
        have "\<forall>q \<in> set ps. matches fa q \<longrightarrow> elapsed (snd p) < elapsed (snd q)"
          using is_first_min_lower[OF m] True by (meson less_le_trans)
        then show ?thesis using f Some True \<open>matches fa p\<close>
          by (simp add: visit_box_match is_first_min_snoc_new)
      next
        case False
        then show ?thesis using f Some \<open>matches fa p\<close> m
          by (simp add: visit_box_match is_first_min_snoc_keep)
      qed
    qed
  qed
qed

lemma fold_visit_max:
  "(case snd (fold (visit_box fa) ps (None, None)) of
      None \<Rightarrow> \<forall>q \<in> set ps. \<not> matches fa q
    | Some m \<Rightarrow> is_first_max fa ps m)"
proof (induction ps rule: rev_induct)
  case Nil
  show ?case by simp
next
  case (snoc p ps)
  obtain mn mx where f: "fold (visit_box fa) ps (None, None) = (mn, mx)"
    by (cases "fold (visit_box fa) ps (None, None)")
  show ?case
  proof (cases "matches fa p")
    case False
    then show ?thesis using snoc f
      by (auto simp: visit_box_nomatch split: option.splits intro: is_first_max_snoc_keep)
  next
    case True
    show ?thesis
    proof (cases mx)
      case None
      then show ?thesis using snoc f True
        by (auto simp: visit_box_match intro!: is_first_max_snoc_new)
    next
      case (Some m)
      then have m: "is_first_max fa ps m" using snoc f by simp
      show ?thesis
      proof (cases "elapsed (snd m) < elapsed (snd p)")
        case True
        have "\<forall>q \<in> set ps. matches fa q \<longrightarrow> elapsed (snd q) < elapsed (snd p)"
          using is_first_max_upper[OF m] True by (meson le_less_trans)
        then show ?thesis using f Some True \<open>matches fa p\<close>
          by (simp add: visit_box_match is_first_max_snoc_new)
      next
        case False
        then show ?thesis using f Some \<open>matches fa p\<close> m
          by (simp add: visit_box_match is_first_max_snoc_keep)
      qed
    qed
  qed
qed

lemma is_first_min_mem: "is_first_min fa ps m \<Longrightarrow> m \<in> set ps \<and> matches fa m"
  by (auto simp: is_first_min_def)

lemma is_first_max_mem: "is_first_max fa ps m \<Longrightarrow> m \<in> set ps \<and> matches fa m"
  by (auto simp: is_first_max_def)

text \<open>Every pointer of the visiting order is a distinct position of the chains.\<close>

lemma block_ptrs_fst: "map fst (block_ptrs c b block) = map (\<lambda>i. (c, b, i)) [0 ..< length block]"
  by (simp add: block_ptrs_def comp_def)

lemma chain_ptrs_fst_set:
  "p \<in> set (chain_ptrs c chain) \<Longrightarrow> fst (fst p) = c"
  by (auto simp: chain_ptrs_def block_ptrs_def)

lemma distinct_concat_map_enumerate:
  assumes "\<And>k x. distinct (map fst (g (k, x)))"
    and "\<And>k x p. p \<in> set (g (k, x)) \<Longrightarrow> tag (fst p) = k"
  shows "distinct (map fst (concat (map g (enumerate n xs))))"
proof (induction xs arbitrary: n)
  case Nil
  show ?case by simp
next
  case (Cons x xs)
  have "\<And>p q. p \<in> set (g (n, x)) \<Longrightarrow> q \<in> set (concat (map g (enumerate (Suc n) xs)))
          \<Longrightarrow> fst p \<noteq> fst q"
  proof
    fix p q assume p: "p \<in> set (g (n, x))"
      and q: "q \<in> set (concat (map g (enumerate (Suc n) xs)))" and e: "fst p = fst q"
    from q obtain k y where ky: "(k, y) \<in> set (enumerate (Suc n) xs)" "q \<in> set (g (k, y))"
      by auto
    then have "Suc n \<le> k" by (auto simp: in_set_enumerate_eq)
    moreover have "tag (fst q) = k" using assms(2) ky(2) by blast
    moreover have "tag (fst p) = n" using assms(2) p by blast
    ultimately show False using e by simp
  qed
  then show ?case using Cons assms(1) by (auto simp: image_iff) metis
qed

lemma chain_ptrs_distinct: "distinct (map fst (chain_ptrs c chain))"
  unfolding chain_ptrs_def
  by (rule distinct_concat_map_enumerate[where tag = "\<lambda>p. fst (snd p)"])
     (auto simp: block_ptrs_def distinct_map inj_on_def)

lemma all_ptrs_distinct: "distinct (map fst (all_ptrs chs))"
  unfolding all_ptrs_def
  by (rule distinct_concat_map_enumerate[where tag = fst])
     (auto simp: chain_ptrs_distinct dest: chain_ptrs_fst_set split: option.splits)

text \<open>For a timer that ends no earlier than it starts, the elapsed time is the difference.\<close>

lemma elapsed_unat:
  "start (GetTimerInfo box) \<le> end_t (GetTimerInfo box) \<Longrightarrow>
     unat (elapsed box) = unat (end_t (GetTimerInfo box)) - unat (start (GetTimerInfo box))"
  by (simp add: elapsed_def unat_sub)

lemma ex_all_ptrs:
  "all_ptrs ex_chains =
     [((0, 0, 0), ex_box 1 10 50), ((0, 0, 1), ex_box 2 1 2), ((0, 1, 0), ex_box 1 5 5),
      ((2, 0, 0), ex_box 2 7 300), ((2, 0, 1), ex_box 1 100 130)]"
  by (simp add: ex_chains_def all_ptrs_def chain_ptrs_def block_ptrs_def upt_rec[of 0])

lemma ex_GetMinMax:
  "GetMinMax ex_tg ex_view ex_f =
     (Some ((0, 1, 0), ex_box 1 5 5), Some ((0, 0, 0), ex_box 1 10 50))"
  by (simp add: GetMinMax_def scan_chains_flat ex_all_ptrs ex_tg_def ex_view_def ex_app_def
      ex_f_def visit_box_def ex_box_def elapsed_def Let_def)

text \<open>
  C10: \<open>GetMinMax\<close> returns two null pointers or two non-null pointers; two non-null
  pointers are to boxes with the queried function address, and the elapsed time of the
  minimum box is at most that of the maximum box.
\<close>

theorem GetMinMax_both_or_none:
  "(fst (GetMinMax tg s function) = None \<longleftrightarrow> snd (GetMinMax tg s function) = None)
   \<and> (\<forall>mn mx. GetMinMax tg s function = (Some mn, Some mx) \<longrightarrow>
         function_address (GetTimerInfo (snd mn)) = GetAbsoluteAddress (app_m s) function
       \<and> function_address (GetTimerInfo (snd mx)) = GetAbsoluteAddress (app_m s) function
       \<and> elapsed (snd mn) \<le> elapsed (snd mx))"
proof -
  define fa where "fa = GetAbsoluteAddress (app_m s) function"
  define ps where "ps = all_ptrs (GetAllThreadTrackTimerChains tg)"
  have g: "GetMinMax tg s function = fold (visit_box fa) ps (None, None)"
    by (simp add: GetMinMax_def scan_chains_flat fa_def ps_def)
  note mn = fold_visit_min[where fa = fa and ps = ps]
    and mx = fold_visit_max[where fa = fa and ps = ps]
  have a: "fst (GetMinMax tg s function) = None \<longleftrightarrow> snd (GetMinMax tg s function) = None"
    using mn mx unfolding g
    by (auto split: option.splits dest: is_first_min_mem is_first_max_mem)
  have b: "function_address (GetTimerInfo (snd m)) = fa
         \<and> function_address (GetTimerInfo (snd x)) = fa \<and> elapsed (snd m) \<le> elapsed (snd x)"
    if "GetMinMax tg s function = (Some m, Some x)" for m x
  proof -
    from that have "is_first_min fa ps m" "is_first_max fa ps x"
      using mn mx unfolding g by simp_all
    then show ?thesis
      using is_first_min_mem[of fa ps m] is_first_max_mem[of fa ps x]
        is_first_min_lower[of fa ps m x]
      by (simp add: matches_def)
  qed
  show ?thesis using a b unfolding fa_def by blast
qed

theorem GetMinMax_both_or_none_witness:
  "GetMinMax ex_tg ex_view ex_f = (Some ((0, 1, 0), ex_box 1 5 5), Some ((0, 0, 0), ex_box 1 10 50))
   \<and> function_address (GetTimerInfo (ex_box 1 5 5)) = GetAbsoluteAddress (app_m ex_view) ex_f
   \<and> function_address (GetTimerInfo (ex_box 1 10 50)) = GetAbsoluteAddress (app_m ex_view) ex_f
   \<and> elapsed (ex_box 1 5 5) \<le> elapsed (ex_box 1 10 50)"
  using GetMinMax_both_or_none[of ex_tg ex_view ex_f] by (simp add: ex_GetMinMax)

text \<open>
  C3, as the code has it: \<open>GetMinMax\<close> returns null for both pointers exactly when no box
  of the chains has the queried function address. Otherwise the minimum pointer is to the
  first box, in visiting order, with the smallest elapsed time \<open>end - start\<close> among the
  boxes with that address, and the maximum pointer is to the first one with the largest.
  For the timers \<open>(a,10,50)\<close>, \<open>(a,5,5)\<close>, \<open>(a,100,130)\<close> between timers of another address
  the minimum is \<open>(a,5,5)\<close> and the maximum is \<open>(a,10,50)\<close>, whose elapsed time is 40.
\<close>

theorem GetMinMax_extremal:
  "(fst (GetMinMax tg s function) = None
      \<longleftrightarrow> (\<forall>q \<in> set (all_ptrs (GetAllThreadTrackTimerChains tg)).
             \<not> matches (GetAbsoluteAddress (app_m s) function) q))
   \<and> (snd (GetMinMax tg s function) = None
      \<longleftrightarrow> (\<forall>q \<in> set (all_ptrs (GetAllThreadTrackTimerChains tg)).
             \<not> matches (GetAbsoluteAddress (app_m s) function) q))
   \<and> (\<forall>m. fst (GetMinMax tg s function) = Some m \<longrightarrow>
         is_first_min (GetAbsoluteAddress (app_m s) function)
           (all_ptrs (GetAllThreadTrackTimerChains tg)) m)
   \<and> (\<forall>m. snd (GetMinMax tg s function) = Some m \<longrightarrow>
         is_first_max (GetAbsoluteAddress (app_m s) function)
           (all_ptrs (GetAllThreadTrackTimerChains tg)) m)
   \<and> GetMinMax ex_tg ex_view ex_f
       = (Some ((0, 1, 0), ex_box 1 5 5), Some ((0, 0, 0), ex_box 1 10 50))"
proof -
  define fa where "fa = GetAbsoluteAddress (app_m s) function"
  define ps where "ps = all_ptrs (GetAllThreadTrackTimerChains tg)"
  have g: "GetMinMax tg s function = fold (visit_box fa) ps (None, None)"
    by (simp add: GetMinMax_def scan_chains_flat fa_def ps_def)
  note mn = fold_visit_min[where fa = fa and ps = ps]
    and mx = fold_visit_max[where fa = fa and ps = ps]
  have 1: "fst (GetMinMax tg s function) = None \<longleftrightarrow> (\<forall>q \<in> set ps. \<not> matches fa q)"
    using mn unfolding g by (auto split: option.splits dest: is_first_min_mem)
  have 2: "snd (GetMinMax tg s function) = None \<longleftrightarrow> (\<forall>q \<in> set ps. \<not> matches fa q)"
    using mx unfolding g by (auto split: option.splits dest: is_first_max_mem)
  have 3: "\<forall>m. fst (GetMinMax tg s function) = Some m \<longrightarrow> is_first_min fa ps m"
    using mn unfolding g by (auto split: option.splits)
  have 4: "\<forall>m. snd (GetMinMax tg s function) = Some m \<longrightarrow> is_first_max fa ps m"
    using mx unfolding g by (auto split: option.splits)
  show ?thesis using 1 2 3 4 ex_GetMinMax unfolding fa_def ps_def by blast
qed

theorem GetMinMax_extremal_witness:
  "is_first_min 1 (all_ptrs ex_chains) ((0, 1, 0), ex_box 1 5 5)
   \<and> is_first_max 1 (all_ptrs ex_chains) ((0, 0, 0), ex_box 1 10 50)
   \<and> elapsed (ex_box 1 10 50) = 40"
  using GetMinMax_extremal[of ex_tg ex_view ex_f]
  by (simp add: ex_GetMinMax ex_tg_def ex_view_def ex_app_def ex_f_def ex_box_def elapsed_def)

text \<open>
  The example of C3 as the specification states it fails: the maximum is not the timer
  \<open>(a,100,130)\<close> of elapsed time 30, since \<open>(a,10,50)\<close> has elapsed time 40.
\<close>

theorem GetMinMax_example_counterexample:
  "snd (GetMinMax ex_tg ex_view ex_f) \<noteq> Some ((2, 0, 1), ex_box 1 100 130)
   \<and> ((2, 0, 1), ex_box 1 100 130) \<in> set (all_ptrs ex_chains)
   \<and> snd (GetMinMax ex_tg ex_view ex_f) = Some ((0, 0, 0), ex_box 1 10 50)
   \<and> elapsed (ex_box 1 100 130) = 30 \<and> elapsed (ex_box 1 10 50) = 40"
  by (simp add: ex_GetMinMax ex_all_ptrs ex_box_def elapsed_def)

section \<open>Properties of OnDataChanged\<close>

lemma rebuild_step_skip: "IsOrbitFunc h (snd p) \<Longrightarrow> rebuild_step h p st = st"
  by (simp add: rebuild_step_def split: prod.splits)

lemma rebuild_step_keep:
  "\<not> IsOrbitFunc h (snd p) \<Longrightarrow>
     rebuild_step h p (fs, idx, i) = (fs @ [snd p], idx[i := i], Suc i)"
  by (simp add: rebuild_step_def)

text \<open>
  The loop of \<open>OnDataChanged\<close>, for any loop state whose index vector holds the identity
  up to \<open>i\<close> followed by at least as many zeros as there are entries left.
\<close>

lemma rebuild_loop:
  "length sel \<le> m \<Longrightarrow>
   fold (rebuild_step h) sel (fs, [0 ..< i] @ replicate m 0, i) =
     (fs @ map snd (filter (\<lambda>p. \<not> IsOrbitFunc h (snd p)) sel),
      [0 ..< i + length (filter (\<lambda>p. \<not> IsOrbitFunc h (snd p)) sel)]
        @ replicate (m - length (filter (\<lambda>p. \<not> IsOrbitFunc h (snd p)) sel)) 0,
      i + length (filter (\<lambda>p. \<not> IsOrbitFunc h (snd p)) sel))"
proof (induction sel arbitrary: fs i m)
  case Nil
  then show ?case by simp
next
  case (Cons p sel)
  then obtain m' where m: "m = Suc m'" "length sel \<le> m'" by (cases m) auto
  show ?case
  proof (cases "IsOrbitFunc h (snd p)")
    case True
    have "length sel \<le> m" using m by simp
    from Cons.IH[OF this, of fs i] True show ?thesis
      by (simp add: rebuild_step_skip)
  next
    case False
    have upd: "([0 ..< i] @ replicate m 0)[i := i] = [0 ..< Suc i] @ replicate m' 0"
      by (simp add: m list_update_append)
    have "fold (rebuild_step h) (p # sel) (fs, [0 ..< i] @ replicate m 0, i)
        = fold (rebuild_step h) sel (fs @ [snd p], [0 ..< Suc i] @ replicate m' 0, Suc i)"
      by (simp only: fold_simps rebuild_step_keep[OF False] upd)
    also note Cons.IH[OF m(2), of "fs @ [snd p]" "Suc i"]
    finally show ?thesis using False m by simp
  qed
qed

text \<open>
  What \<open>OnDataChanged\<close> leaves with capture data: the functions that are not excluded, in
  the order of the map, and an index vector as long as the whole map, the identity
  followed by one zero for each excluded function.
\<close>

lemma OnDataChanged_result:
  assumes "HasCaptureData (app_m s)"
  shows "functions_m (OnDataChanged h s)
           = map snd (filter (\<lambda>p. \<not> IsOrbitFunc h (snd p)) (selected_functions (app_m s)))"
    and "indices_m (OnDataChanged h s)
           = [0 ..< length (functions_m (OnDataChanged h s))]
             @ replicate (length (selected_functions (app_m s))
                          - length (functions_m (OnDataChanged h s))) 0"
  using assms
    rebuild_loop[of "selected_functions (app_m s)" "length (selected_functions (app_m s))" h "[]" 0]
  by (simp_all add: OnDataChanged_def DataView_OnDataChanged_def Let_def)

text \<open>
  C1 fails on the code. With one excluded function in the map, \<open>indices_\<close> has three
  entries for two tracked functions, the last one a second 0; when every function of
  the map is excluded, \<open>indices_\<close> holds a 0 although \<open>functions_\<close> is empty.
\<close>

theorem OnDataChanged_excluded_function_leaves_index:
  "functions_m (OnDataChanged ex_utils ex_view) = [ex_f, ex_g]
   \<and> indices_m (OnDataChanged ex_utils ex_view) = [0, 1, 0]
   \<and> functions_m (OnDataChanged ex_utils
         (ex_view\<lparr>app_m := ex_app\<lparr>selected_functions := [(3, ex_orbit)]\<rparr>\<rparr>)) = []
   \<and> indices_m (OnDataChanged ex_utils
         (ex_view\<lparr>app_m := ex_app\<lparr>selected_functions := [(3, ex_orbit)]\<rparr>\<rparr>)) = [0]"
  by (simp add: OnDataChanged_result ex_view_def ex_app_def ex_utils_def ex_f_def ex_g_def ex_orbit_def upt_rec[of 0] upt_rec[of 1])

section \<open>Properties of DoFilter\<close>

lemma find_str_sublist: "find_str nm tok \<noteq> None \<longleftrightarrow> sublist tok nm"
  by (induction nm) (auto simp: sublist_Cons_right)

lemma token_loop_iff: "token_loop nm tokens \<longleftrightarrow> (\<forall>tok \<in> set tokens. sublist tok nm)"
  by (induction tokens) (auto simp: find_str_sublist[symmetric])

lemma fold_push_back:
  "fold (\<lambda>i acc. if P i then acc @ [i] else acc) xs acc = acc @ filter P xs"
  by (induction xs arbitrary: acc) auto

text \<open>The rows that the filter keeps, as a predicate on the index of a tracked function.\<close>

lemma filter_loop_eq:
  "filter_loop h functions tokens =
     filter (\<lambda>i. \<forall>tok \<in> set tokens. sublist tok (ToLower (GetDisplayName h (functions ! i))))
            [0 ..< length functions]"
proof -
  have "filter_step h functions tokens =
          (\<lambda>i acc. if (\<forall>tok \<in> set tokens. sublist tok (ToLower (GetDisplayName h (functions ! i))))
                    then acc @ [i] else acc)"
    by (simp add: fun_eq_iff filter_step_def Let_def token_loop_iff)
  then show ?thesis by (simp add: filter_loop_def fold_push_back)
qed

lemma visible_loop_ok:
  assumes "\<forall>i \<in> set rows. i < length (functions_m s) \<and> i < length (indices_m s)
             \<and> indices_m s ! i < length (functions_m s)"
  shows "visible_loop s rows visible =
           Inr (visible \<union> (\<lambda>i. GetAbsoluteAddress (app_m s) (functions_m s ! (indices_m s ! i)))
                            ` set rows)"
  using assms
  by (induction rows arbitrary: visible) (auto simp: GetSelectedFunction_def)

lemma length_filter_upt: "length (filter P [0 ..< n]) \<le> n"
  using length_filter_le[of P "[0 ..< n]"] by simp

text \<open>
  With capture data \<open>DoFilter\<close> never fails: it stores the kept rows in increasing order
  and hands their absolute addresses to \<open>SetVisibleFunctions\<close>.
\<close>

lemma DoFilter_closed:
  fixes h :: Utils and s :: LiveFunctionsDataView
  assumes "HasCaptureData (app_m s)"
  defines "kept \<equiv> filter (\<lambda>i. \<forall>tok \<in> set (StrSplit (ToLower (filter_m s)) (CHR '' '')).
                               sublist tok (ToLower (GetDisplayName h (functions_m s ! i))))
                          [0 ..< length (functions_m s)]"
  shows "DoFilter h s =
           Inr (s\<lparr>indices_m := kept,
                  app_m := (app_m s)\<lparr>visible_functions :=
                     (\<lambda>i. GetAbsoluteAddress (app_m s) (functions_m s ! i)) ` set kept\<rparr>\<rparr>)"
proof -
  define s1 where "s1 = s\<lparr>indices_m := kept\<rparr>"
  have len: "length kept \<le> length (functions_m s)"
    unfolding kept_def by (rule length_filter_upt)
  have rng: "\<forall>j \<in> set kept. j < length (functions_m s)"
    unfolding kept_def by auto
  have "\<forall>i \<in> set [0 ..< length (indices_m s1)].
           i < length (functions_m s1) \<and> i < length (indices_m s1)
           \<and> indices_m s1 ! i < length (functions_m s1)"
    using len rng by (auto simp: s1_def)
  from visible_loop_ok[OF this, of "{}"]
  have "visible_loop s1 [0 ..< length (indices_m s1)] {} =
          Inr ((\<lambda>i. GetAbsoluteAddress (app_m s) (functions_m s ! (kept ! i))) ` {0 ..< length kept})"
    by (simp add: s1_def)
  moreover have "(\<lambda>i. GetAbsoluteAddress (app_m s) (functions_m s ! (kept ! i))) ` {0 ..< length kept}
      = (\<lambda>i. GetAbsoluteAddress (app_m s) (functions_m s ! i)) ` set kept"
  proof -
    have "(\<lambda>i. kept ! i) ` {0 ..< length kept} = set kept"
      by (auto simp: set_conv_nth)
    then have "(\<lambda>i. GetAbsoluteAddress (app_m s) (functions_m s ! i)) ` set kept
        = (\<lambda>i. GetAbsoluteAddress (app_m s) (functions_m s ! i)) ` ((\<lambda>i. kept ! i) ` {0 ..< length kept})"
      by simp
    then show ?thesis by (simp only: image_image)
  qed
  moreover have "DoFilter h s =
      (case visible_loop s1 [0 ..< length (indices_m s1)] {} of
         Inl e \<Rightarrow> Inl e
       | Inr visible \<Rightarrow> Inr (s1\<lparr>app_m := (app_m s1)\<lparr>visible_functions := visible\<rparr>\<rparr>))"
    using assms(1) unfolding DoFilter_def Let_def filter_loop_eq s1_def kept_def by simp
  ultimately show ?thesis by (simp add: s1_def)
qed

lemma tolower_space: "tolower c = CHR '' '' \<longleftrightarrow> c = CHR '' ''"
proof (cases "65 \<le> (of_char c :: nat) \<and> (of_char c :: nat) \<le> 90")
  case False
  then show ?thesis by (auto simp: tolower_def)
next
  case True
  then have "(of_char (tolower c) :: nat) = of_char c + 32"
    by (simp add: tolower_def)
  then have "(of_char (tolower c) :: nat) \<noteq> of_char (CHR '' '')"
    using True by simp
  then have "tolower c \<noteq> CHR '' ''" by auto
  moreover have "c \<noteq> CHR '' ''" using True by auto
  ultimately show ?thesis by simp
qed

text \<open>Lower-casing the filter before splitting it lower-cases each of its pieces.\<close>

lemma StrSplit_ToLower:
  "StrSplit (ToLower flt) (CHR '' '') = map ToLower (StrSplit flt (CHR '' ''))"
proof (induction flt)
  case Nil
  show ?case by (simp add: ToLower_def)
next
  case (Cons c cs)
  then show ?case
    using tolower_space[of c]
    by (cases "StrSplit cs (CHR '' '')") (auto simp: ToLower_def split: list.splits)
qed

lemma ex_view_facts:
  "HasCaptureData (app_m ex_view)" "app_m ex_view = ex_app" "functions_m ex_view = [ex_f, ex_g]"
  "HasCaptureData (app_m ex_view3)" "app_m ex_view3 = ex_app"
  "functions_m ex_view3 = [ex_g, ex_f, ex_h]"
  "GetDisplayName ex_utils = name" "GetAbsoluteAddress ex_app = address"
  "HasCaptureData ex_app"
  by (simp_all add: ex_view_def ex_view3_def ex_app_def ex_utils_def)

lemma ex_names:
  "ToLower (name ex_f) = ''foo''" "ToLower (name ex_g) = ''ab''" "ToLower (name ex_h) = ''abc''"
  by (simp_all add: ToLower_def tolower_def ex_f_def ex_g_def ex_h_def char_of_eq_iff)

lemma ex_DoFilter_ab:
  "DoFilter ex_utils (ex_view\<lparr>filter_m := ''ab''\<rparr>)
     = Inr (ex_view\<lparr>filter_m := ''ab'', indices_m := [1],
                    app_m := ex_app\<lparr>visible_functions := {2}\<rparr>\<rparr>)"
  by (simp add: DoFilter_closed ex_view_facts ex_f_def ex_g_def ToLower_def tolower_def
      char_of_eq_iff sublist_Cons_right upt_rec[of 0] upt_rec[of 1])

lemma ex_DoFilter_tab:
  "DoFilter ex_utils (ex_view\<lparr>filter_m := ex_tab_filter\<rparr>)
     = Inr (ex_view\<lparr>filter_m := ex_tab_filter, indices_m := [],
                    app_m := ex_app\<lparr>visible_functions := {}\<rparr>\<rparr>)"
  by (simp add: DoFilter_closed ex_view_facts ex_f_def ex_g_def ex_tab_filter_def ToLower_def
      tolower_def char_of_eq_iff sublist_Cons_right upt_rec[of 0] upt_rec[of 1])

lemma ex_DoFilter_A_b:
  "DoFilter ex_utils (ex_view3\<lparr>filter_m := ''A  b''\<rparr>)
     = Inr (ex_view3\<lparr>filter_m := ''A  b'', indices_m := [0, 2],
                     app_m := ex_app\<lparr>visible_functions := {2, 4}\<rparr>\<rparr>)"
  by (simp add: DoFilter_closed ex_view_facts ex_f_def ex_g_def ex_h_def ToLower_def tolower_def
      char_of_eq_iff sublist_Cons_right upt_rec[of 0] upt_rec[of 1] upt_rec[of 2])

text \<open>
  C2, as the code has it: with capture data, \<open>DoFilter\<close> keeps a tracked function exactly
  when every piece of the filter text between two space characters, lower-cased, is a
  substring of the lower-cased display name. Only the space character separates the
  pieces, and an empty piece is a substring of every name. The empty filter text keeps
  every tracked function.
\<close>

theorem DoFilter_keeps_rows:
  assumes "HasCaptureData (app_m s)"
  shows "\<exists>s'. DoFilter h s = Inr s' \<and> functions_m s' = functions_m s
          \<and> indices_m s' =
              filter (\<lambda>i. \<forall>tok \<in> set (StrSplit (filter_m s) (CHR '' '')).
                            sublist (ToLower tok) (ToLower (GetDisplayName h (functions_m s ! i))))
                     [0 ..< length (functions_m s)]
          \<and> (filter_m s = [] \<longrightarrow> indices_m s' = [0 ..< length (functions_m s)])"
  by (simp add: DoFilter_closed[OF assms] StrSplit_ToLower) (simp add: ToLower_def)

theorem DoFilter_keeps_rows_witness:
  "HasCaptureData (app_m (ex_view3\<lparr>filter_m := ''A  b''\<rparr>))
   \<and> DoFilter ex_utils (ex_view3\<lparr>filter_m := ''A  b''\<rparr>)
       = Inr (ex_view3\<lparr>filter_m := ''A  b'', indices_m := [0, 2],
                       app_m := ex_app\<lparr>visible_functions := {2, 4}\<rparr>\<rparr>)
   \<and> StrSplit ''A  b'' (CHR '' '') = [''A'', [], ''b'']
   \<and> [0, 2] = filter (\<lambda>i. \<forall>tok \<in> set [''A'', [], ''b''].
                        sublist (ToLower tok) (ToLower (name ([ex_g, ex_f, ex_h] ! i))))
                     [0, 1, 2]"
  using DoFilter_keeps_rows[of "ex_view3\<lparr>filter_m := ''A  b''\<rparr>" ex_utils]
  by (simp add: ex_DoFilter_A_b ex_view_facts upt_rec[of 0] upt_rec[of 1] upt_rec[of 2]
      ex_f_def ex_g_def ex_h_def ToLower_def tolower_def char_of_eq_iff sublist_Cons_right)

text \<open>
  C2 as the specification states it fails: for the filter text \<open>a<TAB>b\<close> the name
  \<open>ab\<close> contains both whitespace-separated tokens \<open>a\<close> and \<open>b\<close>, and \<open>DoFilter\<close>
  drops the function all the same, since it looks for the one piece \<open>a<TAB>b\<close>.
\<close>

theorem DoFilter_tab_counterexample:
  "HasCaptureData (app_m (ex_view\<lparr>filter_m := ex_tab_filter\<rparr>))
   \<and> DoFilter ex_utils (ex_view\<lparr>filter_m := ex_tab_filter\<rparr>)
       = Inr (ex_view\<lparr>filter_m := ex_tab_filter, indices_m := [],
                      app_m := ex_app\<lparr>visible_functions := {}\<rparr>\<rparr>)
   \<and> spec_tokens ex_tab_filter = [''a'', ''b'']
   \<and> spec_keeps ex_tab_filter (GetDisplayName ex_utils (functions_m ex_view ! 1))"
  by (simp add: ex_DoFilter_tab ex_view_facts)
     (simp add: ex_g_def spec_keeps_def spec_tokens_def ex_tab_filter_def is_whitespace_def
        ToLower_def tolower_def char_of_eq_iff sublist_Cons_right)

text \<open>
  C8: after every filter recomputation \<open>DoFilter\<close> passes to \<open>SetVisibleFunctions\<close> exactly
  the absolute addresses of the functions of the resulting visible rows: an address is
  in the set if and only if it is the absolute address of a function that the filter kept.
\<close>

theorem DoFilter_emits_visible_addresses:
  assumes "HasCaptureData (app_m s)"
  shows "\<exists>s'. DoFilter h s = Inr s'
          \<and> (\<forall>a. a \<in> visible_functions (app_m s') \<longleftrightarrow>
                 (\<exists>i \<in> set (indices_m s').
                    a = GetAbsoluteAddress (app_m s') (functions_m s' ! i)))
          \<and> GetAbsoluteAddress (app_m s') = GetAbsoluteAddress (app_m s)"
  by (auto simp: DoFilter_closed[OF assms])

theorem DoFilter_emits_visible_addresses_witness:
  "HasCaptureData (app_m (ex_view\<lparr>filter_m := ''ab''\<rparr>))
   \<and> DoFilter ex_utils (ex_view\<lparr>filter_m := ''ab''\<rparr>)
       = Inr (ex_view\<lparr>filter_m := ''ab'', indices_m := [1],
                      app_m := ex_app\<lparr>visible_functions := {2}\<rparr>\<rparr>)
   \<and> GetAbsoluteAddress ex_app ([ex_f, ex_g] ! 1) = 2"
  using DoFilter_emits_visible_addresses[of "ex_view\<lparr>filter_m := ''ab''\<rparr>" ex_utils]
  by (simp add: ex_DoFilter_ab ex_view_facts ex_g_def)

section \<open>Properties of GetSelectedFunction and GetValue\<close>

text \<open>
  C4 fails on the code. After the filter \<open>ab\<close> has left one visible row of two tracked
  functions, the visible index 1 is not below the visible count 1, yet the \<open>CHECK\<close>
  against \<open>functions_.size()\<close> passes and \<open>indices_[1]\<close> is read beyond the end of the
  vector.
\<close>

theorem GetSelectedFunction_checks_wrong_size:
  "DoFilter ex_utils (ex_view\<lparr>filter_m := ''ab''\<rparr>)
     = Inr (ex_view\<lparr>filter_m := ''ab'', indices_m := [1],
                    app_m := ex_app\<lparr>visible_functions := {2}\<rparr>\<rparr>)
   \<and> GetNumElements (ex_view\<lparr>filter_m := ''ab'', indices_m := [1],
                             app_m := ex_app\<lparr>visible_functions := {2}\<rparr>\<rparr>) = 1
   \<and> GetSelectedFunction (ex_view\<lparr>filter_m := ''ab'', indices_m := [1],
                                  app_m := ex_app\<lparr>visible_functions := {2}\<rparr>\<rparr>) 1
       = Inl OutOfRange"
  by (simp add: ex_DoFilter_ab GetNumElements_def GetSelectedFunction_def ex_view_facts)




section \<open>Properties of DoSort\<close>

lemma strict_weak_irrefl: "strict_weak lt \<Longrightarrow> \<not> lt a a"
  by (simp add: strict_weak_def)

lemma strict_weak_trans: "strict_weak lt \<Longrightarrow> lt a b \<Longrightarrow> lt b c \<Longrightarrow> lt a c"
  unfolding strict_weak_def by blast

lemma strict_weak_cases:
  assumes "strict_weak lt" "lt a c"
  shows "lt a b \<or> lt b c"
proof (rule ccontr)
  assume n: "\<not> (lt a b \<or> lt b c)"
  have "\<not> lt b a"
    using n assms strict_weak_trans[of lt b a c] by blast
  moreover have "\<not> lt c b"
    using n assms strict_weak_trans[of lt a c b] by blast
  ultimately have "\<not> lt a c"
    using n assms(1) unfolding strict_weak_def by blast
  then show False using assms(2) by simp
qed

lemma not_less_trans:
  "strict_weak lt \<Longrightarrow> \<not> lt b a \<Longrightarrow> \<not> lt c b \<Longrightarrow> \<not> lt c a"
  using strict_weak_cases[of lt c a b] by blast

lemma set_merge_by: "set (merge_by lt xs ys) = set xs \<union> set ys"
  by (induction lt xs ys rule: merge_by.induct) auto

lemma mset_merge_by: "mset (merge_by lt xs ys) = mset xs + mset ys"
  by (induction lt xs ys rule: merge_by.induct) auto

text \<open>The sorted rows are the rows that were there, each as often as before.\<close>

lemma mset_stable_sort: "mset (stable_sort lt xs) = mset xs"
proof (induction lt xs rule: stable_sort.induct)
  case (1 lt xs)
  show ?case
  proof (cases "length xs \<le> 1")
    case True
    then show ?thesis by (simp add: stable_sort.simps[of lt xs])
  next
    case False
    have "mset (take (length xs div 2) xs) + mset (drop (length xs div 2) xs) = mset xs"
      by (metis append_take_drop_id mset_append)
    then show ?thesis using False 1
      by (simp add: stable_sort.simps[of lt xs] mset_merge_by)
  qed
qed

lemma sorted_merge_by:
  "strict_weak lt \<Longrightarrow> sorted_wrt (\<lambda>a b. \<not> lt b a) xs \<Longrightarrow> sorted_wrt (\<lambda>a b. \<not> lt b a) ys
     \<Longrightarrow> sorted_wrt (\<lambda>a b. \<not> lt b a) (merge_by lt xs ys)"
proof (induction lt xs ys rule: merge_by.induct)
  case (1 lt ys)
  then show ?case by simp
next
  case (2 lt x xs)
  then show ?case by simp
next
  case (3 lt x xs y ys)
  note sw = "3.prems"(1)
  show ?case
  proof (cases "lt y x")
    case True
    have "\<not> lt z y" if "z \<in> set (x # xs)" for z
    proof
      assume zy: "lt z y"
      then have "lt z x" using True strict_weak_trans[OF sw, of z y x] by simp
      moreover have "\<not> lt z x"
        using that "3.prems"(2) strict_weak_irrefl[OF sw, of x] by auto
      ultimately show False by simp
    qed
    then show ?thesis using True 3 by (auto simp: set_merge_by)
  next
    case False
    have "\<not> lt z x" if "z \<in> set (y # ys)" for z
    proof (cases "z = y")
      case True
      then show ?thesis using False by simp
    next
      case False
      then have "\<not> lt z y" using that "3.prems"(3) by auto
      then show ?thesis
        using \<open>\<not> lt y x\<close> not_less_trans[OF sw, of y x z] by blast
    qed
    then show ?thesis using False 3 by (auto simp: set_merge_by)
  qed
qed

lemma sorted_stable_sort:
  "strict_weak lt \<Longrightarrow> sorted_wrt (\<lambda>a b. \<not> lt b a) (stable_sort lt xs)"
proof (induction lt xs rule: stable_sort.induct)
  case (1 lt xs)
  show ?case
  proof (cases "length xs \<le> 1")
    case True
    then have "xs = [] \<or> (\<exists>x. xs = [x])" by (cases xs) auto
    then show ?thesis using True by (auto simp: stable_sort.simps[of lt xs])
  next
    case False
    then show ?thesis using 1
      by (simp add: stable_sort.simps[of lt xs] sorted_merge_by)
  qed
qed

text \<open>
  Merging keeps the rows that compare equal to a given row in their order: those of the
  first half, then those of the second half.
\<close>

lemma filter_merge_by:
  "strict_weak lt \<Longrightarrow> sorted_wrt (\<lambda>a b. \<not> lt b a) xs \<Longrightarrow>
     filter (compare_equal lt r) (merge_by lt xs ys)
       = filter (compare_equal lt r) xs @ filter (compare_equal lt r) ys"
proof (induction lt xs ys rule: merge_by.induct)
  case (1 lt ys)
  then show ?case by simp
next
  case (2 lt x xs)
  then show ?case by simp
next
  case (3 lt x xs y ys)
  note sw = "3.prems"(1)
  show ?case
  proof (cases "lt y x")
    case False
    then show ?thesis using 3 by simp
  next
    case True
    have ih: "filter (compare_equal lt r) (merge_by lt (x # xs) ys)
                = filter (compare_equal lt r) (x # xs) @ filter (compare_equal lt r) ys"
      using 3 True by simp
    show ?thesis
    proof (cases "compare_equal lt r y")
      case False
      then show ?thesis using True ih by simp
    next
      case y: True
      have "\<not> compare_equal lt r z" if z: "z \<in> set (x # xs)" for z
      proof
        assume e: "compare_equal lt r z"
        have "\<not> lt z x"
          using z "3.prems"(2) strict_weak_irrefl[OF sw, of x] by auto
        then have "lt y z" using strict_weak_cases[OF sw True, of z] by blast
        moreover have "\<not> lt y z"
          using y e sw unfolding compare_equal_def strict_weak_def by blast
        ultimately show False by simp
      qed
      then have "filter (compare_equal lt r) (x # xs) = []"
        by (simp only: filter_empty_conv) blast
      then show ?thesis using True ih y by simp
    qed
  qed
qed

text \<open>The merge sort is stable for every strict weak ordering.\<close>

lemma filter_stable_sort:
  "strict_weak lt \<Longrightarrow>
     filter (compare_equal lt r) (stable_sort lt xs) = filter (compare_equal lt r) xs"
proof (induction lt xs rule: stable_sort.induct)
  case (1 lt xs)
  show ?case
  proof (cases "length xs \<le> 1")
    case True
    then show ?thesis by (simp add: stable_sort.simps[of lt xs])
  next
    case False
    have "filter (compare_equal lt r) (take (length xs div 2) xs)
            @ filter (compare_equal lt r) (drop (length xs div 2) xs)
          = filter (compare_equal lt r) xs"
      by (metis append_take_drop_id filter_append)
    then show ?thesis using False 1
      by (simp add: stable_sort.simps[of lt xs] filter_merge_by sorted_stable_sort)
  qed
qed

text \<open>Every comparator of a column is a strict weak ordering, in both directions.\<close>

lemma strict_weak_Compare: "strict_weak (\<lambda>a b. Compare (k a) (k b) asc)"
  by (auto simp: strict_weak_def Compare_def)

lemma compare_equal_Compare:
  "compare_equal (\<lambda>a b. Compare (k a) (k b) asc) a b \<longleftrightarrow> k a = k b"
  by (auto simp: compare_equal_def Compare_def)

lemma sorter_strict_weak: "sorter h s asc = Some cmp \<Longrightarrow> strict_weak cmp"
  by (auto simp: sorter_def Let_def strict_weak_Compare split: if_splits)

text \<open>What \<open>DoSort\<close> changes: the order of the visible rows, and nothing else.\<close>

lemma DoSort_cases:
  assumes "DoSort h s = Inr s'"
  shows "s' = s
       \<or> (\<exists>cmp. sorter h s (sorting_orders_m s ! nat (sorting_column_m s) = kAscending) = Some cmp
              \<and> s' = s\<lparr>indices_m := stable_sort cmp (indices_m s)\<rparr>)"
  using assms by (auto simp: DoSort_def Let_def split: if_splits option.splits)

lemma stable_sort_small:
  "stable_sort lt [] = []" "stable_sort lt [x] = [x]"
  "stable_sort lt [x, y] = merge_by lt [x] [y]"
  "stable_sort lt [x, y, z] = merge_by lt [x] (merge_by lt [y] [z])"
  by (simp_all add: stable_sort.simps[of lt "[]"] stable_sort.simps[of lt "[x]"]
      stable_sort.simps[of lt "[y]"] stable_sort.simps[of lt "[z]"]
      stable_sort.simps[of lt "[x, y]"] stable_sort.simps[of lt "[y, z]"]
      stable_sort.simps[of lt "[x, y, z]"])

lemma ex_sorter:
  "sorter ex_utils ex_view3 asc
     = Some (\<lambda>a b. Compare (count' (ex_stats ([ex_g, ex_f, ex_h] ! a)))
                            (count' (ex_stats ([ex_g, ex_f, ex_h] ! b))) asc)"
  by (simp add: sorter_def Let_def ex_view3_def ex_view_def ex_app_def kColumnCount_def
      kColumnSelected_def kColumnName_def)

lemma ex_DoSort:
  "DoSort ex_utils ex_view3 = Inr (ex_view3\<lparr>indices_m := [1, 0, 2]\<rparr>)"
  by (simp add: DoSort_def ex_sorter)
     (simp add: ex_view3_def ex_view_def ex_app_def kColumnCount_def stable_sort_small
        Compare_def ex_stats_def ex_f_def ex_g_def ex_h_def)

lemma ex_capturing: "IsCapturing (app_m ex_view3)" "indices_m ex_view3 = [0, 1, 2]"
  by (simp_all add: ex_view3_def ex_view_def ex_app_def)

text \<open>
  C5: \<open>DoSort\<close> is stable. For every sort column and direction that the view holds, the
  rows that the comparator of the column takes for equal to any given row \<open>r\<close> are, after
  the sort, the same rows in the same order as before; where the column has no
  comparator, or without capture data, the rows are not moved at all.
\<close>

theorem DoSort_stable:
  assumes "DoSort h s = Inr s'"
  shows "case sorter h s (sorting_orders_m s ! nat (sorting_column_m s) = kAscending) of
           None \<Rightarrow> indices_m s' = indices_m s
         | Some cmp \<Rightarrow>
             (\<forall>r. filter (compare_equal cmp r) (indices_m s')
                    = filter (compare_equal cmp r) (indices_m s))"
  using DoSort_cases[OF assms]
  by (auto simp: filter_stable_sort sorter_strict_weak split: option.splits)

theorem DoSort_stable_witness:
  "DoSort ex_utils ex_view3 = Inr (ex_view3\<lparr>indices_m := [1, 0, 2]\<rparr>)
   \<and> filter (\<lambda>j. count' (ex_stats ([ex_g, ex_f, ex_h] ! 0))
                   = count' (ex_stats ([ex_g, ex_f, ex_h] ! j))) [1, 0, 2] = [0, 2]
   \<and> filter (\<lambda>j. count' (ex_stats ([ex_g, ex_f, ex_h] ! 0))
                   = count' (ex_stats ([ex_g, ex_f, ex_h] ! j))) (indices_m ex_view3) = [0, 2]"
proof -
  have dir: "(sorting_orders_m ex_view3 ! nat (sorting_column_m ex_view3) = kAscending) = False"
    by (simp add: ex_view3_def ex_view_def kColumnCount_def)
  note stable = DoSort_stable[OF ex_DoSort, unfolded dir ex_sorter option.case, rule_format,
      of 0, unfolded compare_equal_Compare]
  have "filter (\<lambda>j. count' (ex_stats ([ex_g, ex_f, ex_h] ! 0))
                   = count' (ex_stats ([ex_g, ex_f, ex_h] ! j))) (indices_m ex_view3) = [0, 2]"
    by (simp add: ex_capturing ex_stats_def ex_f_def ex_g_def ex_h_def)
  with stable ex_DoSort show ?thesis by simp
qed

section \<open>Properties of OnTimer\<close>

lemma OnSort_same_column: "OnSort h s (sorting_column_m s) None = DoSort h s"
  by (simp add: OnSort_def)

lemma DoSort_keeps:
  assumes "DoSort h s = Inr s'"
  shows "filter_m s' = filter_m s \<and> functions_m s' = functions_m s \<and> app_m s' = app_m s
       \<and> sorting_column_m s' = sorting_column_m s \<and> sorting_orders_m s' = sorting_orders_m s
       \<and> update_period_ms_m s' = update_period_ms_m s
       \<and> mset (indices_m s') = mset (indices_m s)"
  using DoSort_cases[OF assms] by (auto simp: mset_stable_sort)

lemma OnDataChanged_period: "update_period_ms_m (OnDataChanged h s) = update_period_ms_m s"
  by (simp add: OnDataChanged_def DataView_OnDataChanged_def Let_def)

text \<open>
  C7: the constructor sets the refresh period to 300 ms. A tick sorts the visible rows
  by the current sort column with its stored direction if the session is capturing, and
  leaves the view untouched otherwise. It never filters: the filter text stays, and the
  visible rows after the tick are the visible rows before it, each as often as before.
\<close>

theorem OnTimer_sorts_only:
  "update_period_ms_m (LiveFunctionsDataView_ctor h base) = 300
   \<and> (IsCapturing (app_m s) \<longrightarrow>
        OnTimer h s = OnSort h s (sorting_column_m s) None \<and> OnTimer h s = DoSort h s)
   \<and> (\<not> IsCapturing (app_m s) \<longrightarrow> OnTimer h s = Inr s)
   \<and> (\<forall>s'. OnTimer h s = Inr s' \<longrightarrow>
         filter_m s' = filter_m s \<and> mset (indices_m s') = mset (indices_m s)
       \<and> functions_m s' = functions_m s
       \<and> sorting_column_m s' = sorting_column_m s
       \<and> sorting_orders_m s' = sorting_orders_m s)"
proof -
  have "filter_m s' = filter_m s \<and> mset (indices_m s') = mset (indices_m s)
       \<and> functions_m s' = functions_m s
       \<and> sorting_column_m s' = sorting_column_m s
       \<and> sorting_orders_m s' = sorting_orders_m s" if "OnTimer h s = Inr s'" for s'
  proof (cases "IsCapturing (app_m s)")
    case True
    then have "DoSort h s = Inr s'" using that by (simp add: OnTimer_def OnSort_same_column)
    from DoSort_keeps[OF this] show ?thesis by simp
  next
    case False
    then show ?thesis using that by (simp add: OnTimer_def)
  qed
  then show ?thesis
    by (simp add: LiveFunctionsDataView_ctor_def OnDataChanged_period OnTimer_def
        OnSort_same_column)
qed

theorem OnTimer_sorts_only_witness:
  "IsCapturing (app_m ex_view3)
   \<and> OnTimer ex_utils ex_view3 = Inr (ex_view3\<lparr>indices_m := [1, 0, 2]\<rparr>)
   \<and> mset [1, 0, 2] = mset (indices_m ex_view3)
   \<and> \<not> IsCapturing (app_m (ex_view3\<lparr>app_m := ex_app\<lparr>IsCapturing := False\<rparr>\<rparr>))
   \<and> OnTimer ex_utils (ex_view3\<lparr>app_m := ex_app\<lparr>IsCapturing := False\<rparr>\<rparr>)
       = Inr (ex_view3\<lparr>app_m := ex_app\<lparr>IsCapturing := False\<rparr>\<rparr>)"
proof -
  note on = OnTimer_sorts_only[of ex_utils ex_view3 ex_view3]
  note off = OnTimer_sorts_only[of ex_utils ex_view3
      "ex_view3\<lparr>app_m := ex_app\<lparr>IsCapturing := False\<rparr>\<rparr>"]
  have a: "OnTimer ex_utils ex_view3 = Inr (ex_view3\<lparr>indices_m := [1, 0, 2]\<rparr>)"
    using conjunct1[OF conjunct2[OF on]] ex_capturing(1) ex_DoSort by metis
  have b: "mset [1, 0, 2] = mset (indices_m ex_view3)"
    using conjunct2[OF conjunct2[OF conjunct2[OF on]]] a by (simp add: ex_capturing(2))
  have c: "\<not> IsCapturing (app_m (ex_view3\<lparr>app_m := ex_app\<lparr>IsCapturing := False\<rparr>\<rparr>))"
    by simp
  have d: "OnTimer ex_utils (ex_view3\<lparr>app_m := ex_app\<lparr>IsCapturing := False\<rparr>\<rparr>)
       = Inr (ex_view3\<lparr>app_m := ex_app\<lparr>IsCapturing := False\<rparr>\<rparr>)"
    using conjunct1[OF conjunct2[OF conjunct2[OF off]]] c by blast
  show ?thesis using a b c d ex_capturing(1) by blast
qed

section \<open>Properties of OnContextMenu\<close>

lemma uint64_bounds: "uint64_lowest \<le> t \<and> t \<le> uint64_max"
proof -
  have m: "uint64_max = - 1" by (simp add: uint64_max_def)
  show ?thesis unfolding m uint64_lowest_def by simp
qed

lemma length_one: "length xs = 1 \<Longrightarrow> \<exists>x. xs = [x]"
  by (cases xs) auto

lemma OnContextMenu_JumpToFirst:
  "OnContextMenu tg s kMenuActionJumpToFirst menu_index item_indices =
     (if length item_indices \<noteq> 1 then Inl CheckFailed
      else case GetSelectedFunction s (to_unsigned (item_indices ! 0)) of
        Inl e \<Rightarrow> Inl e
      | Inr function \<Rightarrow>
          Inr (Call_FindNextFunctionCall (GetAbsoluteAddress (app_m s) function) uint64_lowest
               # zoom_if_found (FindNextFunctionCall tg (GetAbsoluteAddress (app_m s) function)
                                  uint64_lowest)))"
  by (simp add: OnContextMenu_def Let_def kMenuActionJumpToFirst_def kMenuActionSelect_def
      kMenuActionUnselect_def kMenuActionDisassembly_def split: sum.splits)

lemma OnContextMenu_JumpToLast:
  "OnContextMenu tg s kMenuActionJumpToLast menu_index item_indices =
     (if length item_indices \<noteq> 1 then Inl CheckFailed
      else case GetSelectedFunction s (to_unsigned (item_indices ! 0)) of
        Inl e \<Rightarrow> Inl e
      | Inr function \<Rightarrow>
          Inr (Call_FindPreviousFunctionCall (GetAbsoluteAddress (app_m s) function) uint64_max
               # zoom_if_found (FindPreviousFunctionCall tg
                                  (GetAbsoluteAddress (app_m s) function) uint64_max)))"
  by (simp add: OnContextMenu_def Let_def kMenuActionJumpToLast_def kMenuActionJumpToFirst_def
      kMenuActionSelect_def kMenuActionUnselect_def kMenuActionDisassembly_def
      split: sum.splits)

lemma ex_GetSelectedFunction: "GetSelectedFunction ex_view (to_unsigned 0) = Inr ex_f"
  by (simp add: GetSelectedFunction_def to_unsigned_def ex_view_def)

text \<open>
  C9: the action "Jump to first" calls \<open>FindNextFunctionCall\<close> of the time graph with the
  absolute address of the selected function and the smallest \<open>uint64_t\<close>, the action
  "Jump to last" calls \<open>FindPreviousFunctionCall\<close> with that address and the largest
  \<open>uint64_t\<close>. The two arguments are all that the view passes; the only other call is
  \<open>SelectAndZoom\<close> on the box that the search returned, if it returned one.
\<close>

theorem OnContextMenu_jump_first_last:
  "(\<forall>calls. OnContextMenu tg s kMenuActionJumpToFirst menu_index item_indices = Inr calls \<longrightarrow>
      (\<exists>i function. item_indices = [i] \<and> GetSelectedFunction s (to_unsigned i) = Inr function
         \<and> calls = Call_FindNextFunctionCall (GetAbsoluteAddress (app_m s) function) uint64_lowest
                     # zoom_if_found (FindNextFunctionCall tg
                                        (GetAbsoluteAddress (app_m s) function) uint64_lowest)))
   \<and> (\<forall>calls. OnContextMenu tg s kMenuActionJumpToLast menu_index item_indices = Inr calls \<longrightarrow>
      (\<exists>i function. item_indices = [i] \<and> GetSelectedFunction s (to_unsigned i) = Inr function
         \<and> calls = Call_FindPreviousFunctionCall (GetAbsoluteAddress (app_m s) function) uint64_max
                     # zoom_if_found (FindPreviousFunctionCall tg
                                        (GetAbsoluteAddress (app_m s) function) uint64_max)))
   \<and> (\<forall>t. uint64_lowest \<le> t \<and> t \<le> uint64_max)"
proof -
  have first: "\<exists>i function. item_indices = [i] \<and> GetSelectedFunction s (to_unsigned i) = Inr function
         \<and> calls = Call_FindNextFunctionCall (GetAbsoluteAddress (app_m s) function) uint64_lowest
                     # zoom_if_found (FindNextFunctionCall tg
                                        (GetAbsoluteAddress (app_m s) function) uint64_lowest)"
    if "OnContextMenu tg s kMenuActionJumpToFirst menu_index item_indices = Inr calls" for calls
  proof -
    from that have "length item_indices = 1"
      by (auto simp: OnContextMenu_JumpToFirst split: if_splits)
    then obtain i where i: "item_indices = [i]" using length_one by blast
    with that show ?thesis
      by (auto simp: OnContextMenu_JumpToFirst split: sum.splits)
  qed
  have last: "\<exists>i function. item_indices = [i] \<and> GetSelectedFunction s (to_unsigned i) = Inr function
         \<and> calls = Call_FindPreviousFunctionCall (GetAbsoluteAddress (app_m s) function) uint64_max
                     # zoom_if_found (FindPreviousFunctionCall tg
                                        (GetAbsoluteAddress (app_m s) function) uint64_max)"
    if "OnContextMenu tg s kMenuActionJumpToLast menu_index item_indices = Inr calls" for calls
  proof -
    from that have "length item_indices = 1"
      by (auto simp: OnContextMenu_JumpToLast split: if_splits)
    then obtain i where i: "item_indices = [i]" using length_one by blast
    with that show ?thesis
      by (auto simp: OnContextMenu_JumpToLast split: sum.splits)
  qed
  show ?thesis using first last uint64_bounds by blast
qed

theorem OnContextMenu_jump_first_last_witness:
  "OnContextMenu ex_tg ex_view kMenuActionJumpToFirst 0 [0]
     = Inr [Call_FindNextFunctionCall 1 0]
   \<and> OnContextMenu ex_tg ex_view kMenuActionJumpToLast 0 [0]
     = Inr [Call_FindPreviousFunctionCall 1 18446744073709551615,
            SelectAndZoom ((2, 0, 1), ex_box 1 100 130)]
   \<and> GetSelectedFunction ex_view (to_unsigned 0) = Inr ex_f
   \<and> GetAbsoluteAddress (app_m ex_view) ex_f = 1"
proof -
  note t = OnContextMenu_jump_first_last[of ex_tg ex_view 0 "[0]"]
  have a: "OnContextMenu ex_tg ex_view kMenuActionJumpToFirst 0 [0]
     = Inr [Call_FindNextFunctionCall 1 0]"
    by (simp add: OnContextMenu_JumpToFirst ex_GetSelectedFunction ex_view_facts ex_f_def
        uint64_lowest_def zoom_if_found_def ex_tg_def)
  have b: "OnContextMenu ex_tg ex_view kMenuActionJumpToLast 0 [0]
     = Inr [Call_FindPreviousFunctionCall 1 18446744073709551615,
            SelectAndZoom ((2, 0, 1), ex_box 1 100 130)]"
    by (simp add: OnContextMenu_JumpToLast ex_GetSelectedFunction ex_view_facts ex_f_def
        uint64_max_def zoom_if_found_def ex_tg_def)
  have c: "GetAbsoluteAddress (app_m ex_view) ex_f = 1"
    by (simp add: ex_view_facts ex_f_def)
  show ?thesis using t a b c ex_GetSelectedFunction by blast
qed

end
